theory Spec2Isabelle
  imports Main "HOL-Library.AList" "HOL-Library.Multiset"
begin

section \<open>Strings of the Python library\<close>

text \<open>
  A Python \<open>str\<close> is a sequence of Unicode code points, so it is modelled as a list of
  natural numbers, one per code point. \<open>ch\<close> is the code point of an 8-bit character
  and \<open>lit\<close> the \<open>str\<close> of a string literal of the source.
\<close>

type_synonym str = "nat list"

definition ch :: "char \<Rightarrow> nat" where
  "ch c = of_char c"

definition lit :: "string \<Rightarrow> str" where
  "lit s = map ch s"

text \<open>
  The pattern \<open>\d\<close> of \<open>re\<close>, on a \<open>str\<close> and without the flag \<open>re.ASCII\<close>, matches
  every decimal digit of Unicode (category \<open>Nd\<close>). Among the code points below 128
  these are \<open>0\<close> to \<open>9\<close>, the code points 48 to 57, in every version of Unicode. Which
  code points from 128 on are decimal digits depends on the Unicode database of the
  interpreter, so that table is a parameter.
\<close>

definition is_digit :: "(nat \<Rightarrow> bool) \<Rightarrow> nat \<Rightarrow> bool" where
  "is_digit decimal c = (if c < 128 then 48 \<le> c \<and> c \<le> 57 else decimal c)"

text \<open>\<open>s.split(sep)\<close> for a separator of one character: the pieces between the separators.\<close>

fun split_on :: "nat \<Rightarrow> str \<Rightarrow> str list" where
  "split_on sep [] = [[]]"
| "split_on sep (c # cs) =
     (if c = sep then [] # split_on sep cs
      else (case split_on sep cs of p # ps \<Rightarrow> (c # p) # ps | [] \<Rightarrow> [[c]]))"

text \<open>
  \<open>re.match(r'(\d+)', s)\<close>: the greedy run of digits at the start of \<open>s\<close> is group 1;
  there is no match when the run is empty.
\<close>

fun digit_run :: "(nat \<Rightarrow> bool) \<Rightarrow> str \<Rightarrow> str" where
  "digit_run decimal [] = []"
| "digit_run decimal (c # cs) = (if is_digit decimal c then c # digit_run decimal cs else [])"

definition re_match_digits :: "(nat \<Rightarrow> bool) \<Rightarrow> str \<Rightarrow> str option" where
  "re_match_digits decimal s =
     (case digit_run decimal s of [] \<Rightarrow> None | d # ds \<Rightarrow> Some (d # ds))"

text \<open>
  \<open>s.zfill(width)\<close>: a string at least \<open>width\<close> long is returned as it is; a shorter one
  gets zeros on its left, after the sign when it starts with \<open>+\<close> or \<open>-\<close>.
\<close>

definition zfill :: "nat \<Rightarrow> str \<Rightarrow> str" where
  "zfill width s =
     (if width \<le> length s then s
      else (case s of
              [] \<Rightarrow> replicate width (ch CHR ''0'')
            | c # cs \<Rightarrow>
                if c = ch CHR ''+'' \<or> c = ch CHR ''-''
                then c # replicate (width - length s) (ch CHR ''0'') @ cs
                else replicate (width - length s) (ch CHR ''0'') @ s))"

text \<open>
  Older releases of pandas implement \<open>Series.str.zfill\<close> as plain padding on the left,
  without the treatment of the sign.
\<close>

definition pad_zeros :: "nat \<Rightarrow> str \<Rightarrow> str" where
  "pad_zeros width s = replicate (width - length s) (ch CHR ''0'') @ s"

text \<open>
  \<open>s.replace(old, new)\<close>: every occurrence of \<open>old\<close>, found from the left and without
  overlap, becomes \<open>new\<close>. For the empty \<open>old\<close> Python puts \<open>new\<close> before every character
  and at the end.
\<close>

function str_replace :: "str \<Rightarrow> str \<Rightarrow> str \<Rightarrow> str" where
  "str_replace old new s =
     (if old = [] then new @ concat (map (\<lambda>c. c # new) s)
      else if take (length old) s = old then new @ str_replace old new (drop (length old) s)
      else (case s of [] \<Rightarrow> [] | c # cs \<Rightarrow> c # str_replace old new cs))"
  by pat_completeness auto
termination
proof (relation "measure (\<lambda>(old, new, s). length s)")
  show "wf (measure (\<lambda>(old, new, s). length s))" by simp
next
  fix old new s :: str
  assume "old \<noteq> []" and t: "take (length old) s = old"
  have "s \<noteq> []" using \<open>old \<noteq> []\<close> t by auto
  moreover have "0 < length old" using \<open>old \<noteq> []\<close> by simp
  ultimately show "((old, new, drop (length old) s), (old, new, s))
                     \<in> measure (\<lambda>(old, new, s). length s)"
    by simp
next
  fix old new s :: str and c cs
  assume "s = c # cs"
  then show "((old, new, cs), (old, new, s)) \<in> measure (\<lambda>(old, new, s). length s)"
    by simp
qed

declare str_replace.simps [simp del]

text \<open>\<open>old in s\<close> on strings: \<open>old\<close> occurs somewhere in \<open>s\<close>.\<close>

fun substr_in :: "str \<Rightarrow> str \<Rightarrow> bool" where
  "substr_in old [] = (old = [])"
| "substr_in old (c # cs) = (take (length old) (c # cs) = old \<or> substr_in old cs)"

section \<open>The extractor of identifiers\<close>

text \<open>
  \<open>extract_number_from_filename\<close>: \<open>file_name.split('_')[0]\<close> is the first piece of the
  split, which always exists (lemma \<open>split_on_not_Nil\<close>). The first argument is
  the table of the decimal digits from code point 128 on that \<open>\d\<close> goes by.
\<close>

definition extract_number_from_filename :: "(nat \<Rightarrow> bool) \<Rightarrow> str \<Rightarrow> str option" where
  "extract_number_from_filename decimal file_name =
     (case re_match_digits decimal (hd (split_on (ch CHR ''_'') file_name)) of
        Some g \<Rightarrow> Some (zfill 11 g)
      | None \<Rightarrow> None)"

section \<open>Data of a run\<close>

text \<open>
  The exceptions that can reach the program: a missing key of a \<open>dict\<close> or of a table,
  the \<open>ValueError\<close> the loader raises itself, and whatever a call into the libraries
  (\<open>os\<close>, \<open>shutil\<close>, \<open>pathlib\<close>, \<open>pandas\<close>) raises.
\<close>

datatype exn = KeyError str | ValueError str | LibraryError str

text \<open>
  A table is the list of its columns, each a name with the cells of the column; all
  columns have the same length. A cell holds text, an integer, or nothing.
\<close>

datatype cell = Text str | Number int | Blank

type_synonym dataframe = "(str \<times> cell list) list"

text \<open>
  A \<open>dict\<close> from identifiers to counts is an association list in insertion order. A
  \<open>set\<close> of identifiers is a list without duplicates; its order stands for the order of
  iteration, which Python leaves open, and no theorem below depends on it.
\<close>

type_synonym tally = "(str \<times> int) list"

definition py_set :: "str list \<Rightarrow> str list" where
  "py_set xs = remdups xs"

text \<open>What the program shows to the user, by the line of the source that shows it.\<close>

datatype message =
    Error_reading_excel exn
  | Error_directory_missing str
  | Error_no_valid_client_ids
  | Write_processing_fallback
  | Success_excel_saved str
  | Write_primary_matched nat
  | Write_total_mismatched nat
  | Write_total_matched int

text \<open>
  The trace of a run: the messages shown, and the calls to the file system with what
  they returned.
\<close>

datatype event =
    Ui message
  | Made_dir str
  | Listed str "str list"
  | Checked_file str bool
  | Copied str str
  | Wrote_table str dataframe

record 'w state =
  world :: 'w
  trace :: "event list"

definition emit :: "event \<Rightarrow> 'w state \<Rightarrow> 'w state" where
  "emit e s = s\<lparr>trace := trace s @ [e]\<rparr>"

text \<open>
  The library calls of the program, over a file system of any type \<open>'w\<close>:
  \<open>os.path.exists\<close>, \<open>Path.mkdir(parents=True, exist_ok=True)\<close>, \<open>os.listdir\<close>,
  \<open>os.path.join\<close>, \<open>os.path.isfile\<close>, \<open>shutil.copy\<close>, \<open>pandas.read_excel\<close> and
  \<open>DataFrame.to_excel(path, index=False)\<close>. A call that can raise returns a sum.
  With them comes the table of the decimal digits of Unicode from code point 128 on, by
  which \<open>re\<close> decides \<open>\d\<close>.
\<close>

record 'w os =
  os_path_exists :: "'w \<Rightarrow> str \<Rightarrow> bool"
  path_mkdir :: "'w \<Rightarrow> str \<Rightarrow> exn + 'w"
  os_listdir :: "'w \<Rightarrow> str \<Rightarrow> exn + str list"
  os_path_join :: "str \<Rightarrow> str \<Rightarrow> str"
  os_path_isfile :: "'w \<Rightarrow> str \<Rightarrow> bool"
  shutil_copy :: "'w \<Rightarrow> str \<Rightarrow> str \<Rightarrow> exn + 'w"
  pd_read_excel :: "'w \<Rightarrow> str \<Rightarrow> exn + dataframe"
  df_to_excel :: "'w \<Rightarrow> dataframe \<Rightarrow> str \<Rightarrow> exn + 'w"
  unicode_decimal :: "nat \<Rightarrow> bool"

section \<open>Operations on tables and dicts\<close>

text \<open>\<open>str(n)\<close> for an integer, which is what \<open>astype(str)\<close> gives for a cell of a column of integers.\<close>

function str_of_nat :: "nat \<Rightarrow> str" where
  "str_of_nat n =
     (if n < 10 then [(lit ''0123456789'') ! n]
      else str_of_nat (n div 10) @ [(lit ''0123456789'') ! (n mod 10)])"
  by pat_completeness auto
termination
  by (relation "measure id") auto

declare str_of_nat.simps [simp del]

definition str_of_int :: "int \<Rightarrow> str" where
  "str_of_int i = (if i < 0 then (ch CHR ''-'') # str_of_nat (nat (- i)) else str_of_nat (nat i))"

fun astype_str :: "cell \<Rightarrow> str" where
  "astype_str (Text t) = t"
| "astype_str (Number n) = str_of_int n"
| "astype_str Blank = lit ''nan''"

text \<open>\<open>df.empty\<close>: the table has no column or no row.\<close>

fun df_empty :: "dataframe \<Rightarrow> bool" where
  "df_empty [] = True"
| "df_empty ((name, cells) # columns) = (cells = [])"

text \<open>\<open>{client_id: 0 for client_id in client_ids}\<close>\<close>

definition dict_zeros :: "str list \<Rightarrow> tally" where
  "dict_zeros client_ids = foldl (\<lambda>d client_id. AList.update client_id 0 d) [] client_ids"

text \<open>\<open>d[k] += n\<close>: reads \<open>d[k]\<close>, which raises \<open>KeyError\<close> for a missing key, then stores.\<close>

definition dict_add :: "tally \<Rightarrow> str \<Rightarrow> int \<Rightarrow> exn + tally" where
  "dict_add d k n =
     (case map_of d k of
        None \<Rightarrow> Inl (KeyError k)
      | Some v \<Rightarrow> Inr (AList.update k (v + n) d))"

text \<open>\<open>d.get(x, 0)\<close> for a cell \<open>x\<close>; the keys of \<open>d\<close> are strings.\<close>

fun dict_get_0 :: "tally \<Rightarrow> cell \<Rightarrow> int" where
  "dict_get_0 d (Text t) = (case map_of d t of None \<Rightarrow> 0 | Some v \<Rightarrow> v)"
| "dict_get_0 d (Number n) = 0"
| "dict_get_0 d Blank = 0"

section \<open>The loader\<close>

text \<open>
  \<open>read_client_ids_from_excel\<close> (lines 42 to 51). Every exception raised in the body is
  caught, shown, and answered with the empty table and the empty set.
\<close>

definition read_client_ids_from_excel ::
  "'w os \<Rightarrow> str \<Rightarrow> 'w state \<Rightarrow> 'w state \<times> (dataframe \<times> str list)" where
  "read_client_ids_from_excel os excel_path s =
     (case pd_read_excel os (world s) excel_path of
        Inl e \<Rightarrow> (emit (Ui (Error_reading_excel e)) s, ([], []))
      | Inr df \<Rightarrow>
          (case map_of df (lit ''ClientID'') of
             None \<Rightarrow>
               (emit (Ui (Error_reading_excel
                  (ValueError (lit ''Excel file must contain a 'ClientID' column.'')))) s, ([], []))
           | Some column \<Rightarrow>
               (let ids = map (\<lambda>c. zfill 11 (astype_str c)) column;
                    df' = AList.update (lit ''ClientID'') (map Text ids) df
                in (s, (df', py_set ids)))))"

section \<open>The directory matcher\<close>

text \<open>
  The loop of \<open>match_images_with_client_ids\<close> (lines 76 to 85) over the names that
  \<open>os.listdir\<close> returned, with the two lists and the tally built so far. The result of
  the extractor is \<open>None\<close> or a string, and \<open>None\<close> is in no set of strings.
\<close>

fun scan_directory ::
  "'w os \<Rightarrow> str list \<Rightarrow> str \<Rightarrow> str \<Rightarrow> str list \<Rightarrow>
   str list \<times> str list \<times> tally \<Rightarrow> 'w state \<Rightarrow>
   'w state \<times> (exn + str list \<times> str list \<times> tally)" where
  "scan_directory os client_ids images_dir output_folder [] acc s = (s, Inr acc)"
| "scan_directory os client_ids images_dir output_folder (file_name # rest)
     (matched_images, mismatched_images, matched_image_count) s =
     (let file_path = os_path_join os images_dir file_name;
          is_file = os_path_isfile os (world s) file_path;
          s1 = emit (Checked_file file_path is_file) s
      in if is_file then
           (case extract_number_from_filename (unicode_decimal os) file_name of
              None \<Rightarrow>
                scan_directory os client_ids images_dir output_folder rest
                  (matched_images, mismatched_images @ [file_name], matched_image_count) s1
            | Some number \<Rightarrow>
                if number \<in> set client_ids then
                  (case shutil_copy os (world s1) file_path output_folder of
                     Inl e \<Rightarrow> (s1, Inl e)
                   | Inr w \<Rightarrow>
                       (let s2 = emit (Copied file_path output_folder) (s1\<lparr>world := w\<rparr>)
                        in case dict_add matched_image_count number 1 of
                             Inl e \<Rightarrow> (s2, Inl e)
                           | Inr d \<Rightarrow>
                               scan_directory os client_ids images_dir output_folder rest
                                 (matched_images @ [file_name], mismatched_images, d) s2))
                else
                  scan_directory os client_ids images_dir output_folder rest
                    (matched_images, mismatched_images @ [file_name], matched_image_count) s1)
         else
           scan_directory os client_ids images_dir output_folder rest
             (matched_images, mismatched_images, matched_image_count) s1)"

text \<open>\<open>match_images_with_client_ids\<close> (lines 61 to 87).\<close>

definition match_images_with_client_ids ::
  "'w os \<Rightarrow> str list \<Rightarrow> str \<Rightarrow> str \<Rightarrow> 'w state \<Rightarrow>
   'w state \<times> (exn + str list \<times> str list \<times> tally)" where
  "match_images_with_client_ids os client_ids images_dir output_folder s =
     (if \<not> os_path_exists os (world s) images_dir
      then (emit (Ui (Error_directory_missing images_dir)) s, Inr ([], [], []))
      else
        (case path_mkdir os (world s) output_folder of
           Inl e \<Rightarrow> (s, Inl e)
         | Inr w \<Rightarrow>
             (let s1 = emit (Made_dir output_folder) (s\<lparr>world := w\<rparr>)
              in case os_listdir os (world s1) images_dir of
                   Inl e \<Rightarrow> (s1, Inl e)
                 | Inr names \<Rightarrow>
                     scan_directory os client_ids images_dir output_folder names
                       ([], [], dict_zeros client_ids) (emit (Listed images_dir names) s1))))"

section \<open>The report writer\<close>

text \<open>\<open>update_excel_with_status\<close> (lines 90 to 98).\<close>

definition update_excel_with_status ::
  "'w os \<Rightarrow> dataframe \<Rightarrow> tally \<Rightarrow> str \<Rightarrow> 'w state \<Rightarrow> 'w state \<times> (exn + unit)" where
  "update_excel_with_status os excel_df matched_image_count output_excel_path s =
     (case map_of excel_df (lit ''ClientID'') of
        None \<Rightarrow> (s, Inl (KeyError (lit ''ClientID'')))
      | Some column \<Rightarrow>
          (let df1 = AList.update (lit ''Matched Images Count'')
                       (map (\<lambda>x. Number (dict_get_0 matched_image_count x)) column) excel_df;
               df2 = AList.update (lit ''Status'')
                       (map (\<lambda>x. Text (if dict_get_0 matched_image_count x > 0
                                         then (lit ''Matched'') else (lit ''Mismatched''))) column) df1
           in case df_to_excel os (world s) df2 output_excel_path of
                Inl e \<Rightarrow> (s, Inl e)
              | Inr w \<Rightarrow>
                  (emit (Ui (Success_excel_saved output_excel_path))
                     (emit (Wrote_table output_excel_path df2) (s\<lparr>world := w\<rparr>)), Inr ())))"

section \<open>The run\<close>

text \<open>
  Line 109, \<open>{cid for cid in client_ids if matched_image_count[cid] == 0}\<close>: the first
  identifier that is no key of the tally raises \<open>KeyError\<close>.
\<close>

definition unmatched_client_ids :: "str list \<Rightarrow> tally \<Rightarrow> exn + str list" where
  "unmatched_client_ids client_ids matched_image_count =
     (case find (\<lambda>cid. map_of matched_image_count cid = None) client_ids of
        Some cid \<Rightarrow> Inl (KeyError cid)
      | None \<Rightarrow> Inr (py_set (filter (\<lambda>cid. map_of matched_image_count cid = Some 0) client_ids)))"

text \<open>Lines 117 and 118, the loop that adds the counts of the fallback pass.\<close>

fun merge_counts :: "tally \<Rightarrow> (str \<times> int) list \<Rightarrow> exn + tally" where
  "merge_counts matched_image_count [] = Inr matched_image_count"
| "merge_counts matched_image_count ((cid, cnt) # items) =
     (case dict_add matched_image_count cid cnt of
        Inl e \<Rightarrow> Inl e
      | Inr d \<Rightarrow> merge_counts d items)"

text \<open>
  Lines 112 to 118. The fallback directory is \<open>None\<close> or a string, and counts as given
  when it is a string that is not empty.
\<close>

definition fallback_pass ::
  "'w os \<Rightarrow> str list \<Rightarrow> str option \<Rightarrow> str \<Rightarrow> tally \<Rightarrow> 'w state \<Rightarrow>
   'w state \<times> (exn + tally)" where
  "fallback_pass os unmatched fallback_images_dir output_folder matched_image_count s =
     (case fallback_images_dir of
        None \<Rightarrow> (s, Inr matched_image_count)
      | Some dir \<Rightarrow>
          if unmatched \<noteq> [] \<and> dir \<noteq> [] then
            (case match_images_with_client_ids os unmatched dir output_folder
                    (emit (Ui Write_processing_fallback) s) of
               (s1, Inl e) \<Rightarrow> (s1, Inl e)
             | (s1, Inr (fallback_matched_images, fallback_mismatched_images,
                         fallback_matched_image_count)) \<Rightarrow>
                 (case merge_counts matched_image_count fallback_matched_image_count of
                    Inl e \<Rightarrow> (s1, Inl e)
                  | Inr d \<Rightarrow> (s1, Inr d)))
          else (s, Inr matched_image_count))"

text \<open>Line 121.\<close>

definition updated_excel_path :: "str \<Rightarrow> str" where
  "updated_excel_path excel_path = str_replace (lit ''.xlsx'') (lit ''_updated.xlsx'') excel_path"

text \<open>
  \<open>process_images\<close> (lines 101 to 128). The result is \<open>None\<close> after the early return of
  line 105 and the path of the written table otherwise.
\<close>

definition process_images ::
  "'w os \<Rightarrow> str \<Rightarrow> str \<Rightarrow> str \<Rightarrow> str option \<Rightarrow> 'w state \<Rightarrow>
   'w state \<times> (exn + str option)" where
  "process_images os excel_path images_dir output_folder fallback_images_dir s =
     (case read_client_ids_from_excel os excel_path s of
        (s1, (excel_df, client_ids)) \<Rightarrow>
          if df_empty excel_df \<or> client_ids = [] then
            (emit (Ui Error_no_valid_client_ids) s1, Inr None)
          else
            (case match_images_with_client_ids os client_ids images_dir output_folder s1 of
               (s2, Inl e) \<Rightarrow> (s2, Inl e)
             | (s2, Inr (matched_images, mismatched_images, matched_image_count)) \<Rightarrow>
                 (case unmatched_client_ids client_ids matched_image_count of
                    Inl e \<Rightarrow> (s2, Inl e)
                  | Inr unmatched \<Rightarrow>
                      (case fallback_pass os unmatched fallback_images_dir output_folder
                              matched_image_count s2 of
                         (s3, Inl e) \<Rightarrow> (s3, Inl e)
                       | (s3, Inr final_count) \<Rightarrow>
                           (case update_excel_with_status os excel_df final_count
                                   (updated_excel_path excel_path) s3 of
                              (s4, Inl e) \<Rightarrow> (s4, Inl e)
                            | (s4, Inr u) \<Rightarrow>
                                (emit (Ui (Write_total_matched (sum_list (map snd final_count))))
                                   (emit (Ui (Write_total_mismatched (length mismatched_images)))
                                      (emit (Ui (Write_primary_matched (length matched_images)))
                                         s4)),
                                 Inr (Some (updated_excel_path excel_path))))))))"

section \<open>A small file system for examples\<close>

text \<open>
  Two tables and three directories, after the scenarios of the specification: the
  directory \<open>imgs\<close> holds three pictures and a subdirectory, \<open>bare\<close> is empty, and
  \<open>spare\<close> holds one picture. Nothing else exists, and no call changes anything.
  The decimal digits are those of Unicode 14.0, the database of Python 3.11: 65 runs of
  ten consecutive code points from 128 on, each run the digits zero to nine of one
  script, given by the code point of its zero.
\<close>

definition unicode_14_zeros :: "nat list" where
  "unicode_14_zeros =
     [1632, 1776, 1984, 2406, 2534, 2662, 2790, 2918, 3046, 3174, 3302, 3430, 3558,
      3664, 3792, 3872, 4160, 4240, 6112, 6160, 6470, 6608, 6784, 6800, 6992, 7088,
      7232, 7248, 42528, 43216, 43264, 43472, 43504, 43600, 44016, 65296, 66720, 68912,
      69734, 69872, 69942, 70096, 70384, 70736, 70864, 71248, 71360, 71472, 71904,
      72016, 72784, 73040, 73120, 92768, 92864, 93008, 120782, 120792, 120802, 120812,
      120822, 123200, 123632, 125264, 130032]"

definition unicode_14_decimal :: "nat \<Rightarrow> bool" where
  "unicode_14_decimal c = list_ex (\<lambda>zero. zero \<le> c \<and> c < zero + 10) unicode_14_zeros"

definition demo_os :: "unit os" where
  "demo_os =
     \<lparr> os_path_exists = (\<lambda>w p. p \<in> set [lit ''imgs'', lit ''bare'', lit ''spare'', lit ''out'']),
       path_mkdir = (\<lambda>w p. Inr w),
       os_listdir = (\<lambda>w p.
          if p = lit ''imgs'' then Inr [lit ''1_a.jpg'', lit ''22_b.jpg'', lit ''99_c.jpg'', lit ''old'']
          else if p = lit ''bare'' then Inr []
          else if p = lit ''spare'' then Inr [lit ''1_x.jpg'']
          else Inl (LibraryError (lit ''FileNotFoundError''))),
       os_path_join = (\<lambda>d f. d @ lit ''/'' @ f),
       os_path_isfile = (\<lambda>w p. p \<noteq> lit ''imgs/old''),
       shutil_copy = (\<lambda>w src dst. Inr w),
       pd_read_excel = (\<lambda>w p.
          if p = lit ''clients.xlsx''
          then Inr [(lit ''ClientID'', [Text (lit ''1''), Text (lit ''22'')]), (lit ''Name'', [Text (lit ''A''), Text (lit ''B'')])]
          else if p = lit ''one.xlsx'' then Inr [(lit ''ClientID'', [Number 1])]
          else if p = lit ''names.xlsx'' then Inr [(lit ''Name'', [Text (lit ''A''), Text (lit ''B'')])]
          else Inl (LibraryError (lit ''FileNotFoundError''))),
       df_to_excel = (\<lambda>w df p. Inr w),
       unicode_decimal = unicode_14_decimal \<rparr>"

definition start :: "unit state" where
  "start = \<lparr> world = (), trace = [] \<rparr>"

section \<open>Notions of the specification\<close>

text \<open>
  The entries that a scan skipped, read off the part of the trace that the scan wrote:
  the paths that \<open>os.path.isfile\<close> answered with \<open>False\<close>.
\<close>

fun skipped :: "event list \<Rightarrow> str list" where
  "skipped [] = []"
| "skipped (Checked_file p False # es) = p # skipped es"
| "skipped (e # es) = skipped es"

text \<open>The part of the trace written between two states.\<close>

definition events_since :: "'w state \<Rightarrow> 'w state \<Rightarrow> event list" where
  "events_since s s' = drop (length (trace s)) (trace s')"

text \<open>A file name carries one of the identifiers.\<close>

definition names_client :: "(nat \<Rightarrow> bool) \<Rightarrow> str list \<Rightarrow> str \<Rightarrow> bool" where
  "names_client decimal client_ids file_name =
     (case extract_number_from_filename decimal file_name of
        None \<Rightarrow> False
      | Some number \<Rightarrow> number \<in> set client_ids)"

text \<open>The tables written during a run, read off its trace.\<close>

fun tables_written :: "event list \<Rightarrow> str list" where
  "tables_written [] = []"
| "tables_written (Wrote_table p df # es) = p # tables_written es"
| "tables_written (e # es) = tables_written es"



section \<open>Properties of the string functions\<close>

lemma ch_eq_iff [simp]: "ch a = ch b \<longleftrightarrow> a = b"
  by (simp add: ch_def)

lemma lit_eq_iff [simp]: "lit a = lit b \<longleftrightarrow> a = b"
  by (simp add: lit_def inj_map_eq_map inj_on_def)




lemma length_lit [simp]: "length (lit s) = length s"
  by (simp add: lit_def)

lemma ch_signs: "ch CHR ''+'' = 43" "ch CHR ''-'' = 45" "ch CHR ''0'' = 48"
  by (simp_all add: ch_def)

lemma split_on_not_Nil: "split_on sep s \<noteq> []"
  by (induction s) (auto split: list.splits)

lemma hd_split_on: "hd (split_on sep s) = takeWhile (\<lambda>c. c \<noteq> sep) s"
proof (induction s)
  case Nil
  show ?case by simp
next
  case (Cons c cs)
  then show ?case
    using split_on_not_Nil [of sep cs] by (cases "split_on sep cs") auto
qed

lemma digit_run_takeWhile: "digit_run decimal s = takeWhile (is_digit decimal) s"
  by (induction s) auto

lemma sign_not_digit: "is_digit decimal c \<Longrightarrow> c \<noteq> ch CHR ''+'' \<and> c \<noteq> ch CHR ''-''"
  by (auto simp: is_digit_def ch_signs split: if_splits)

lemma zfill_digits:
  assumes "s \<noteq> []" and "is_digit decimal (hd s)"
  shows "zfill w s = replicate (w - length s) (ch CHR ''0'') @ s"
proof (cases s)
  case Nil
  with assms show ?thesis by simp
next
  case (Cons c cs)
  with assms have "c \<noteq> ch CHR ''+''" "c \<noteq> ch CHR ''-''"
    using sign_not_digit [of decimal c] by auto
  with Cons show ?thesis by (simp add: zfill_def)
qed

lemma length_zfill: "max w (length s) = length (zfill w s)"
  by (auto simp: zfill_def split: list.splits)

lemma extract_number_run:
  "extract_number_from_filename decimal n =
     (case takeWhile (is_digit decimal) (takeWhile (\<lambda>c. c \<noteq> ch CHR ''_'') n) of
        [] \<Rightarrow> None
      | a # as \<Rightarrow> Some (replicate (11 - length (a # as)) (ch CHR ''0'') @ a # as))"
proof -
  let ?g = "takeWhile (is_digit decimal) (takeWhile (\<lambda>c. c \<noteq> ch CHR ''_'') n)"
  have run: "digit_run decimal (hd (split_on (ch CHR ''_'') n)) = ?g"
    by (simp only: hd_split_on digit_run_takeWhile)
  show ?thesis
  proof (cases ?g)
    case Nil
    have "digit_run decimal (hd (split_on (ch CHR ''_'') n)) = []"
      by (simp only: run Nil)
    then show ?thesis
      by (simp add: extract_number_from_filename_def re_match_digits_def Nil)
  next
    case (Cons a as)
    have "a \<in> set ?g"
      by (simp only: Cons list.set insertI1)
    then have "is_digit decimal a"
      by (rule set_takeWhileD [THEN conjunct2])
    then have z: "zfill 11 (a # as) = replicate (11 - length (a # as)) (ch CHR ''0'') @ (a # as)"
      by (intro zfill_digits) simp_all
    have r: "digit_run decimal (hd (split_on (ch CHR ''_'') n)) = a # as"
      by (simp only: run Cons)
    show ?thesis
      by (simp add: extract_number_from_filename_def re_match_digits_def r Cons z
            del: replicate_Suc length_Cons)
  qed
qed

text \<open>
  C4. For every file name, a sequence of any code points, and whatever the table of the
  decimal digits from code point 128 on: the extractor takes the part of the name before
  the first underscore (the whole name when it has none) and the run of decimal digits,
  of any script, at the start of that part. An empty run,
  which is the case exactly when the part is empty or starts with another character,
  gives \<open>None\<close>, never an error; otherwise the result is the run with zeros on its left
  up to width 11, and a run of 11 digits or more comes back unchanged. Two names with
  the same run give the same result.
\<close>

theorem extract_number_spec:
  fixes decimal :: "nat \<Rightarrow> bool" and file_name :: str
  defines "p \<equiv> takeWhile (\<lambda>c. c \<noteq> ch CHR ''_'') file_name"
  defines "d \<equiv> takeWhile (is_digit decimal) p"
  shows "extract_number_from_filename decimal file_name =
           (if d = [] then None else Some (replicate (11 - length d) (ch CHR ''0'') @ d))
         \<and> (d = [] \<longleftrightarrow> p = [] \<or> \<not> is_digit decimal (hd p))
         \<and> (11 \<le> length d \<and> d \<noteq> [] \<longrightarrow> extract_number_from_filename decimal file_name = Some d)
         \<and> (\<forall>other. takeWhile (is_digit decimal) (takeWhile (\<lambda>c. c \<noteq> ch CHR ''_'') other) = d \<longrightarrow>
              extract_number_from_filename decimal other = extract_number_from_filename decimal file_name)"
proof -
  have c1: "extract_number_from_filename decimal file_name =
           (if d = [] then None else Some (replicate (11 - length d) (ch CHR ''0'') @ d))"
    unfolding extract_number_run [of decimal file_name] d_def p_def
    by (simp split: list.split)
  have c2: "d = [] \<longleftrightarrow> p = [] \<or> \<not> is_digit decimal (hd p)"
    unfolding d_def by (cases p) auto
  have c3: "11 \<le> length d \<and> d \<noteq> [] \<longrightarrow> extract_number_from_filename decimal file_name = Some d"
    unfolding c1 by simp
  have c4: "\<forall>other. takeWhile (is_digit decimal) (takeWhile (\<lambda>c. c \<noteq> ch CHR ''_'') other) = d \<longrightarrow>
              extract_number_from_filename decimal other = extract_number_from_filename decimal file_name"
  proof (intro allI impI)
    fix other
    assume "takeWhile (is_digit decimal) (takeWhile (\<lambda>c. c \<noteq> ch CHR ''_'') other) = d"
    then have "takeWhile (is_digit decimal) (takeWhile (\<lambda>c. c \<noteq> ch CHR ''_'') other)
                 = takeWhile (is_digit decimal) (takeWhile (\<lambda>c. c \<noteq> ch CHR ''_'') file_name)"
      by (simp only: d_def p_def)
    then show "extract_number_from_filename decimal other = extract_number_from_filename decimal file_name"
      by (simp only: extract_number_run)
  qed
  from c1 c2 c3 c4 show ?thesis by (intro conjI)
qed

lemmas str_eval = lit_def ch_def is_digit_def unicode_14_decimal_def unicode_14_zeros_def

lemma replicate_pos: "0 < n \<Longrightarrow> replicate n x = x # replicate (n - 1) x"
  by (cases n) simp_all

theorem extract_number_spec_witness:
  "extract_number_from_filename unicode_14_decimal (lit ''22_b.jpg'') = Some (lit ''00000000022'')
   \<and> extract_number_from_filename unicode_14_decimal (lit ''22x7_b.jpg'')
       = Some (lit ''00000000022'')
   \<and> extract_number_from_filename unicode_14_decimal (lit ''123456789012_b.jpg'')
       = Some (lit ''123456789012'')
   \<and> extract_number_from_filename unicode_14_decimal (lit ''photo.jpg'') = None
   \<and> extract_number_from_filename unicode_14_decimal (lit ''12'' @ [1635] @ lit ''_a.jpg'')
       = Some (lit ''00000000'' @ lit ''12'' @ [1635])
   \<and> extract_number_from_filename unicode_14_decimal ([1633, 1634] @ lit ''_a.jpg'')
       = Some (lit ''000000000'' @ [1633, 1634])"
proof -
  have r1: "takeWhile (is_digit unicode_14_decimal)
              (takeWhile (\<lambda>c. c \<noteq> ch CHR ''_'') (lit ''22_b.jpg'')) = lit ''22''"
    by (simp add: str_eval)
  have r2: "takeWhile (is_digit unicode_14_decimal)
              (takeWhile (\<lambda>c. c \<noteq> ch CHR ''_'') (lit ''22x7_b.jpg'')) = lit ''22''"
    by (simp add: str_eval)
  have r3: "takeWhile (is_digit unicode_14_decimal)
              (takeWhile (\<lambda>c. c \<noteq> ch CHR ''_'') (lit ''123456789012_b.jpg''))
              = lit ''123456789012''"
    by (simp add: str_eval)
  have r4: "takeWhile (is_digit unicode_14_decimal)
              (takeWhile (\<lambda>c. c \<noteq> ch CHR ''_'') (lit ''photo.jpg'')) = []"
    by (simp add: str_eval)
  have r5: "takeWhile (is_digit unicode_14_decimal)
              (takeWhile (\<lambda>c. c \<noteq> ch CHR ''_'') (lit ''12'' @ [1635] @ lit ''_a.jpg''))
              = lit ''12'' @ [1635]"
    by (simp add: str_eval)
  have r6: "takeWhile (is_digit unicode_14_decimal)
              (takeWhile (\<lambda>c. c \<noteq> ch CHR ''_'') ([1633, 1634] @ lit ''_a.jpg'')) = [1633, 1634]"
    by (simp add: str_eval)
  have e1: "extract_number_from_filename unicode_14_decimal (lit ''22_b.jpg'')
              = Some (lit ''00000000022'')"
    using extract_number_spec [where decimal = unicode_14_decimal and file_name = "lit ''22_b.jpg''"]
    unfolding r1 by (simp add: lit_def ch_def replicate_pos)
  have "\<forall>other. takeWhile (is_digit unicode_14_decimal)
                   (takeWhile (\<lambda>c. c \<noteq> ch CHR ''_'') other) = lit ''22'' \<longrightarrow>
          extract_number_from_filename unicode_14_decimal other
            = extract_number_from_filename unicode_14_decimal (lit ''22_b.jpg'')"
    using extract_number_spec [where decimal = unicode_14_decimal and file_name = "lit ''22_b.jpg''"]
    unfolding r1 by (elim conjE)
  from this [rule_format, OF r2] e1
  have e2: "extract_number_from_filename unicode_14_decimal (lit ''22x7_b.jpg'')
              = Some (lit ''00000000022'')"
    by (simp only:)
  have e3: "extract_number_from_filename unicode_14_decimal (lit ''123456789012_b.jpg'')
              = Some (lit ''123456789012'')"
    using extract_number_spec
      [where decimal = unicode_14_decimal and file_name = "lit ''123456789012_b.jpg''"]
    unfolding r3 by (simp add: lit_def ch_def replicate_pos)
  have e4: "extract_number_from_filename unicode_14_decimal (lit ''photo.jpg'') = None"
    using extract_number_spec [where decimal = unicode_14_decimal and file_name = "lit ''photo.jpg''"]
    unfolding r4 by simp
  have e5: "extract_number_from_filename unicode_14_decimal (lit ''12'' @ [1635] @ lit ''_a.jpg'')
              = Some (lit ''00000000'' @ lit ''12'' @ [1635])"
    using extract_number_spec
      [where decimal = unicode_14_decimal and file_name = "lit ''12'' @ [1635] @ lit ''_a.jpg''"]
    unfolding r5 by (simp add: lit_def ch_def replicate_pos)
  have e6: "extract_number_from_filename unicode_14_decimal ([1633, 1634] @ lit ''_a.jpg'')
              = Some (lit ''000000000'' @ [1633, 1634])"
    using extract_number_spec
      [where decimal = unicode_14_decimal and file_name = "[1633, 1634] @ lit ''_a.jpg''"]
    unfolding r6 by (simp add: lit_def ch_def replicate_pos)
  from e1 e2 e3 e4 e5 e6 show ?thesis by (intro conjI)
qed

lemma zfill_long: "w \<le> length s \<Longrightarrow> zfill w s = s"
  by (simp add: zfill_def)

lemma pad_zeros_long: "w \<le> length s \<Longrightarrow> pad_zeros w s = s"
  by (simp add: pad_zeros_def)

lemma length_pad_zeros: "max w (length s) = length (pad_zeros w s)"
  by (simp add: pad_zeros_def)

text \<open>
  C5. Normalising an identifier (padding it with zeros on the left to width 11) a second
  time changes nothing, for every string: the first padding gives a string of at least 11
  characters, which the second returns as it is. This holds for \<open>str.zfill\<close> and for
  the plain padding of older pandas releases alike.
\<close>

theorem normalization_idempotent:
  "zfill 11 (zfill 11 s) = zfill 11 s \<and> pad_zeros 11 (pad_zeros 11 s) = pad_zeros 11 s"
proof
  have "11 \<le> length (zfill 11 s)"
    using length_zfill [of 11 s] by linarith
  then show "zfill 11 (zfill 11 s) = zfill 11 s"
    by (rule zfill_long)
next
  have "11 \<le> length (pad_zeros 11 s)"
    using length_pad_zeros [of 11 s] by linarith
  then show "pad_zeros 11 (pad_zeros 11 s) = pad_zeros 11 s"
    by (rule pad_zeros_long)
qed

theorem normalization_idempotent_witness:
  "zfill 11 (lit ''22'') = lit ''00000000022'' \<and> zfill 11 (lit ''00000000022'') = lit ''00000000022''
   \<and> zfill 11 (lit ''-5'') = lit ''-0000000005'' \<and> zfill 11 (lit ''-0000000005'') = lit ''-0000000005''
   \<and> pad_zeros 11 (lit ''-5'') = lit ''000000000-5'' \<and> pad_zeros 11 (lit ''000000000-5'') = lit ''000000000-5''"
  using normalization_idempotent [of "lit ''22''"] normalization_idempotent [of "lit ''-5''"]
  by (simp add: zfill_def pad_zeros_def lit_def ch_def replicate_pos)

section \<open>Properties of dicts and of the scan\<close>


lemma world_emit [simp]: "world (emit e s) = world s"
  by (simp add: emit_def)

lemma trace_emit [simp]: "trace (emit e s) = trace s @ [e]"
  by (simp add: emit_def)

lemma sum_update:
  fixes d :: tally
  shows "map_of d k = Some v \<Longrightarrow>
    sum_list (map snd (AList.update k w d)) = sum_list (map snd d) - v + w"
  by (induction d) (auto split: if_splits)

lemma keys_dict_add:
  assumes "dict_add d k n = Inr d'"
  shows "fst ` set d' = fst ` set d"
proof -
  from assms obtain v where v: "map_of d k = Some v" and d': "d' = AList.update k (v + n) d"
    by (auto simp: dict_add_def split: option.splits)
  from v have "k \<in> fst ` set d"
    by (metis map_of_eq_None_iff option.distinct(1))
  then show ?thesis
    unfolding d' dom_update by blast
qed

lemma sum_dict_add:
  "dict_add d k n = Inr d' \<Longrightarrow> sum_list (map snd d') = sum_list (map snd d) + n"
  by (auto simp: dict_add_def sum_update split: option.splits)

lemma map_of_dict_add:
  "dict_add d k n = Inr d' \<Longrightarrow> map_of d' = (map_of d)(k \<mapsto> the (map_of d k) + n)"
  by (auto simp: dict_add_def update_conv' split: option.splits)

lemma dict_add_ok: "k \<in> fst ` set d \<Longrightarrow> \<exists>d'. dict_add d k n = Inr d'"
  by (cases "map_of d k") (auto simp: dict_add_def map_of_eq_None_iff)

lemma skipped_append: "skipped (xs @ ys) = skipped xs @ skipped ys"
  by (induction xs rule: skipped.induct) auto

lemma scan_Cons_cases:
  assumes "scan_directory os ids dir out (f # rest) (m, mm, c) s = (s', Inr r)"
  obtains
    (skip) "\<not> os_path_isfile os (world s) (os_path_join os dir f)"
      "scan_directory os ids dir out rest (m, mm, c)
         (emit (Checked_file (os_path_join os dir f) False) s) = (s', Inr r)"
  | (miss) "os_path_isfile os (world s) (os_path_join os dir f)"
      "\<not> names_client (unicode_decimal os) ids f"
      "scan_directory os ids dir out rest (m, mm @ [f], c)
         (emit (Checked_file (os_path_join os dir f) True) s) = (s', Inr r)"
  | (hit) n w d where "os_path_isfile os (world s) (os_path_join os dir f)"
      "names_client (unicode_decimal os) ids f"
      "extract_number_from_filename (unicode_decimal os) f = Some n" "n \<in> set ids"
      "shutil_copy os (world s) (os_path_join os dir f) out = Inr w"
      "dict_add c n 1 = Inr d"
      "scan_directory os ids dir out rest (m @ [f], mm, d)
         (emit (Copied (os_path_join os dir f) out)
            ((emit (Checked_file (os_path_join os dir f) True) s)\<lparr>world := w\<rparr>)) = (s', Inr r)"
  using assms
  by (auto simp: Let_def names_client_def split: if_splits option.splits sum.splits)

lemma scan_keys:
  "scan_directory os ids dir out names (m, mm, c) s = (s', Inr (m', mm', c')) \<Longrightarrow>
     fst ` set c' = fst ` set c"
proof (induction names arbitrary: m mm c s)
  case Nil
  then show ?case by simp
next
  case (Cons f rest)
  from Cons.prems show ?case
  proof (cases rule: scan_Cons_cases)
    case skip
    then show ?thesis using Cons.IH by blast
  next
    case miss
    then show ?thesis using Cons.IH by blast
  next
    case (hit n w d)
    then show ?thesis using Cons.IH keys_dict_add by blast
  qed
qed


lemma scan_sum:
  "scan_directory os ids dir out names (m, mm, c) s = (s', Inr (m', mm', c')) \<Longrightarrow>
     sum_list (map snd c') + int (length m) = sum_list (map snd c) + int (length m')"
proof (induction names arbitrary: m mm c s)
  case Nil
  then show ?case by simp
next
  case (Cons f rest)
  from Cons.prems show ?case
  proof (cases rule: scan_Cons_cases)
    case skip
    then show ?thesis using Cons.IH by blast
  next
    case miss
    then show ?thesis using Cons.IH by blast
  next
    case (hit n w d)
    from Cons.IH [OF hit(7)] sum_dict_add [OF hit(6)] show ?thesis by simp
  qed
qed

lemma distinct_dict_add:
  "dict_add d k n = Inr d' \<Longrightarrow> distinct (map fst d) \<Longrightarrow> distinct (map fst d')"
  by (auto simp: dict_add_def distinct_update split: option.splits)

lemma scan_distinct:
  "scan_directory os ids dir out names (m, mm, c) s = (s', Inr (m', mm', c')) \<Longrightarrow>
     distinct (map fst c) \<Longrightarrow> distinct (map fst c')"
proof (induction names arbitrary: m mm c s)
  case Nil
  then show ?case by simp
next
  case (Cons f rest)
  from Cons.prems(1) show ?case
  proof (cases rule: scan_Cons_cases)
    case skip
    then show ?thesis using Cons.IH Cons.prems(2) by blast
  next
    case miss
    then show ?thesis using Cons.IH Cons.prems(2) by blast
  next
    case (hit n w d)
    from distinct_dict_add [OF hit(6) Cons.prems(2)] Cons.IH [OF hit(7)]
    show ?thesis by simp
  qed
qed

lemma scan_partition:
  "scan_directory os ids dir out names (m, mm, c) s = (s', Inr (m', mm', c')) \<Longrightarrow>
     \<exists>evs ms mms. trace s' = trace s @ evs \<and> m' = m @ ms \<and> mm' = mm @ mms \<and>
       mset (map (os_path_join os dir) names) =
         mset (map (os_path_join os dir) ms) + mset (map (os_path_join os dir) mms)
           + mset (skipped evs) \<and>
       (\<forall>f\<in>set ms. names_client (unicode_decimal os) ids f) \<and> (\<forall>f\<in>set mms. \<not> names_client (unicode_decimal os) ids f)"
proof (induction names arbitrary: m mm c s)
  case Nil
  then show ?case by simp
next
  case (Cons f rest)
  let ?p = "os_path_join os dir f"
  from Cons.prems show ?case
  proof (cases rule: scan_Cons_cases)
    case skip
    from Cons.IH [OF skip(2)] obtain evs ms mms where
      "trace s' = trace (emit (Checked_file ?p False) s) @ evs" "m' = m @ ms" "mm' = mm @ mms"
      "mset (map (os_path_join os dir) rest) =
         mset (map (os_path_join os dir) ms) + mset (map (os_path_join os dir) mms)
           + mset (skipped evs)"
      "\<forall>f\<in>set ms. names_client (unicode_decimal os) ids f" "\<forall>f\<in>set mms. \<not> names_client (unicode_decimal os) ids f"
      by blast
    then show ?thesis
      by (intro exI [of _ "Checked_file ?p False # evs"] exI [of _ ms] exI [of _ mms]) simp
  next
    case miss
    from Cons.IH [OF miss(3)] obtain evs ms mms where
      "trace s' = trace (emit (Checked_file ?p True) s) @ evs" "m' = m @ ms"
      "mm' = (mm @ [f]) @ mms"
      "mset (map (os_path_join os dir) rest) =
         mset (map (os_path_join os dir) ms) + mset (map (os_path_join os dir) mms)
           + mset (skipped evs)"
      "\<forall>f\<in>set ms. names_client (unicode_decimal os) ids f" "\<forall>f\<in>set mms. \<not> names_client (unicode_decimal os) ids f"
      by blast
    with miss(2) show ?thesis
      by (intro exI [of _ "Checked_file ?p True # evs"] exI [of _ ms] exI [of _ "f # mms"]) simp
  next
    case (hit n w d)
    from Cons.IH [OF hit(7)] obtain evs ms mms where
      "trace s' = trace (emit (Copied ?p out) ((emit (Checked_file ?p True) s)\<lparr>world := w\<rparr>)) @ evs"
      "m' = (m @ [f]) @ ms" "mm' = mm @ mms"
      "mset (map (os_path_join os dir) rest) =
         mset (map (os_path_join os dir) ms) + mset (map (os_path_join os dir) mms)
           + mset (skipped evs)"
      "\<forall>f\<in>set ms. names_client (unicode_decimal os) ids f" "\<forall>f\<in>set mms. \<not> names_client (unicode_decimal os) ids f"
      by blast
    with hit(2) show ?thesis
      by (intro exI [of _ "Checked_file ?p True # Copied ?p out # evs"] exI [of _ "f # ms"]
            exI [of _ mms]) simp
  qed
qed

lemma scan_counts:
  "scan_directory os ids dir out names (m, mm, c) s = (s', Inr (m', mm', c')) \<Longrightarrow>
     \<exists>ms. m' = m @ ms \<and>
       (\<forall>k. map_of c' k =
          map_option (\<lambda>v. v + int (length (filter (\<lambda>f. extract_number_from_filename (unicode_decimal os) f = Some k) ms)))
            (map_of c k))"
proof (induction names arbitrary: m mm c s)
  case Nil
  then show ?case by (simp add: option.map_ident)
next
  case (Cons f rest)
  from Cons.prems show ?case
  proof (cases rule: scan_Cons_cases)
    case skip
    then show ?thesis using Cons.IH by blast
  next
    case miss
    then show ?thesis using Cons.IH by blast
  next
    case (hit n w d)
    from Cons.IH [OF hit(7)] obtain ms where ms: "m' = (m @ [f]) @ ms"
      and cnt: "\<And>k. map_of c' k =
          map_option (\<lambda>v. v + int (length (filter (\<lambda>f. extract_number_from_filename (unicode_decimal os) f = Some k) ms)))
            (map_of d k)"
      by blast
    from hit(6) obtain v where v: "map_of c n = Some v"
      by (auto simp: dict_add_def split: option.splits)
    have d: "map_of d = (map_of c)(n \<mapsto> v + 1)"
      using map_of_dict_add [OF hit(6)] v by simp
    have "\<forall>k. map_of c' k =
          map_option (\<lambda>v. v + int (length (filter (\<lambda>f. extract_number_from_filename (unicode_decimal os) f = Some k) (f # ms))))
            (map_of c k)"
      using hit(3) v by (auto simp: cnt d)
    with ms show ?thesis by (intro exI [of _ "f # ms"]) simp
  qed
qed

lemma foldl_zeros_map_of:
  "map_of (foldl (\<lambda>d k. AList.update k (0::int) d) d0 ids) k =
     (if k \<in> set ids then Some 0 else map_of d0 k)"
  by (induction ids arbitrary: d0) (auto simp: update_conv')

lemma foldl_zeros_distinct:
  "distinct (map fst d0) \<Longrightarrow> distinct (map fst (foldl (\<lambda>d k. AList.update k (0::int) d) d0 ids))"
  by (induction ids arbitrary: d0) (auto simp: distinct_update)

lemma dict_zeros_map_of: "map_of (dict_zeros ids) k = (if k \<in> set ids then Some 0 else None)"
  by (simp add: dict_zeros_def foldl_zeros_map_of)

lemma dict_zeros_keys: "fst ` set (dict_zeros ids) = set ids"
proof -
  have "dom (map_of (dict_zeros ids)) = set ids"
    by (auto simp: dict_zeros_map_of dom_def)
  then show ?thesis by (simp add: dom_map_of_conv_image_fst)
qed

lemma dict_zeros_distinct: "distinct (map fst (dict_zeros ids))"
  by (simp add: dict_zeros_def foldl_zeros_distinct)

lemma all_zero_sum:
  fixes d :: tally
  shows "distinct (map fst d) \<Longrightarrow> (\<forall>k v. map_of d k = Some v \<longrightarrow> v = 0) \<Longrightarrow> sum_list (map snd d) = 0"
proof (induction d)
  case Nil
  then show ?case by simp
next
  case (Cons a d)
  obtain k v where a: "a = (k, v)" by (cases a)
  from Cons.prems(2) [rule_format, of k v] a have "v = 0" by simp
  moreover have "\<forall>k' v'. map_of d k' = Some v' \<longrightarrow> v' = 0"
  proof (intro allI impI)
    fix k' v' assume m: "map_of d k' = Some v'"
    then have "k' \<in> fst ` set d" by (metis map_of_eq_None_iff option.distinct(1))
    with Cons.prems(1) a have "k' \<noteq> k" by auto
    with m a Cons.prems(2) [rule_format, of k' v'] show "v' = 0" by simp
  qed
  ultimately show ?case using Cons.IH Cons.prems(1) a by simp
qed

lemma dict_zeros_sum: "sum_list (map snd (dict_zeros ids)) = 0"
  by (rule all_zero_sum) (auto simp: dict_zeros_distinct dict_zeros_map_of split: if_splits)

section \<open>The matcher\<close>

lemma match_images_missing:
  "\<not> os_path_exists os (world s) dir \<Longrightarrow>
     match_images_with_client_ids os ids dir out s =
       (emit (Ui (Error_directory_missing dir)) s, Inr ([], [], []))"
  by (simp add: match_images_with_client_ids_def)

lemma match_images_existing:
  assumes "os_path_exists os (world s) dir"
    and "match_images_with_client_ids os ids dir out s = (s', Inr r)"
  obtains w names where "path_mkdir os (world s) out = Inr w"
    "os_listdir os w dir = Inr names"
    "scan_directory os ids dir out names ([], [], dict_zeros ids)
       (emit (Listed dir names) (emit (Made_dir out) (s\<lparr>world := w\<rparr>))) = (s', Inr r)"
  using assms
  by (auto simp: match_images_with_client_ids_def Let_def split: sum.splits)

lemma run_of_snd: "snd (f :: 'a \<times> 'b) = r \<Longrightarrow> f = (fst f, r)"
  by (cases f) simp

lemma demo_primary:
  "snd (match_images_with_client_ids demo_os [lit ''00000000001'', lit ''00000000022''] (lit ''imgs'') (lit ''out'') start)
     = Inr ([lit ''1_a.jpg'', lit ''22_b.jpg''], [lit ''99_c.jpg''],
            [(lit ''00000000001'', 1), (lit ''00000000022'', 1)])"
  by code_simp

lemma demo_missing:
  "snd (match_images_with_client_ids demo_os [lit ''00000000001''] (lit ''nowhere'') (lit ''out'') start)
     = Inr ([], [], [])"
  by code_simp

lemma demo_imgs_exists: "os_path_exists demo_os (world start) (lit ''imgs'')"
  by (simp add: demo_os_def)

lemma demo_nowhere_missing: "\<not> os_path_exists demo_os (world start) (lit ''nowhere'')"
  by (simp add: demo_os_def)

text \<open>
  C2, as amended. Whenever the matcher returns, no key outside the target set is in the
  tally. When the source directory exists, the keys of the tally are exactly the
  identifiers of the target set, and each identifier is mapped to the number of matched
  files that carry it: zero before the scan, and zero still for an identifier that no
  file carries.
\<close>

theorem matcher_tally_keys:
  assumes "match_images_with_client_ids os client_ids images_dir output_folder s =
             (s', Inr (matched, mismatched, tally))"
  shows "fst ` set tally \<subseteq> set client_ids
       \<and> (os_path_exists os (world s) images_dir \<longrightarrow>
            fst ` set tally = set client_ids
          \<and> (\<forall>k. map_of tally k =
                 (if k \<in> set client_ids
                  then Some (int (length (filter (\<lambda>f. extract_number_from_filename (unicode_decimal os) f = Some k) matched)))
                  else None)))"
proof (cases "os_path_exists os (world s) images_dir")
  case False
  with assms show ?thesis by (simp add: match_images_missing)
next
  case True
  from True assms obtain w names where
    scan: "scan_directory os client_ids images_dir output_folder names ([], [], dict_zeros client_ids)
       (emit (Listed images_dir names) (emit (Made_dir output_folder) (s\<lparr>world := w\<rparr>)))
         = (s', Inr (matched, mismatched, tally))"
    by (rule match_images_existing)
  have keys: "fst ` set tally = set client_ids"
    using scan_keys [OF scan] by (simp add: dict_zeros_keys)
  from scan_counts [OF scan] have
    "\<forall>k. map_of tally k =
       (if k \<in> set client_ids
        then Some (int (length (filter (\<lambda>f. extract_number_from_filename (unicode_decimal os) f = Some k) matched)))
        else None)"
    by (simp add: dict_zeros_map_of)
  with keys True show ?thesis by simp
qed

theorem matcher_tally_keys_witness:
  "snd (match_images_with_client_ids demo_os [lit ''00000000001'', lit ''00000000022''] (lit ''imgs'') (lit ''out'') start)
     = Inr ([lit ''1_a.jpg'', lit ''22_b.jpg''], [lit ''99_c.jpg''],
            [(lit ''00000000001'', 1), (lit ''00000000022'', 1)])
   \<and> os_path_exists demo_os (world start) (lit ''imgs'')
   \<and> fst ` set [(lit ''00000000001'', 1::int), (lit ''00000000022'', 1)]
        = set [lit ''00000000001'', lit ''00000000022'']
   \<and> map_of [(lit ''00000000001'', 1::int), (lit ''00000000022'', 1)] (lit ''00000000022'')
        = Some (int (length (filter (\<lambda>f. extract_number_from_filename (unicode_decimal demo_os) f = Some (lit ''00000000022''))
                       [lit ''1_a.jpg'', lit ''22_b.jpg''])))"
proof -
  note run = run_of_snd [OF demo_primary]
  from matcher_tally_keys [OF run] demo_imgs_exists
  have "fst ` set [(lit ''00000000001'', 1::int), (lit ''00000000022'', 1)]
          = set [lit ''00000000001'', lit ''00000000022'']
        \<and> (\<forall>k. map_of [(lit ''00000000001'', 1::int), (lit ''00000000022'', 1)] k =
                 (if k \<in> set [lit ''00000000001'', lit ''00000000022'']
                  then Some (int (length (filter (\<lambda>f. extract_number_from_filename (unicode_decimal demo_os) f = Some k)
                          [lit ''1_a.jpg'', lit ''22_b.jpg''])))
                  else None))"
    by blast
  then have "fst ` set [(lit ''00000000001'', 1::int), (lit ''00000000022'', 1)]
          = set [lit ''00000000001'', lit ''00000000022'']"
    and "map_of [(lit ''00000000001'', 1::int), (lit ''00000000022'', 1)] (lit ''00000000022'') =
                 (if (lit ''00000000022'') \<in> set [lit ''00000000001'', lit ''00000000022'']
                  then Some (int (length (filter (\<lambda>f. extract_number_from_filename (unicode_decimal demo_os) f = Some (lit ''00000000022''))
                          [lit ''1_a.jpg'', lit ''22_b.jpg''])))
                  else None)"
    by blast+
  with demo_primary demo_imgs_exists show ?thesis
    by simp
qed

text \<open>
  C2 as stated fails for a source directory that is missing: the matcher returns the
  empty tally, in which the identifier of the target set is no key.
\<close>

theorem matcher_tally_missing_dir_counterexample:
  "snd (match_images_with_client_ids demo_os [lit ''00000000001''] (lit ''nowhere'') (lit ''out'') start)
     = Inr ([], [], [])
   \<and> \<not> os_path_exists demo_os (world start) (lit ''nowhere'')
   \<and> (case snd (match_images_with_client_ids demo_os [lit ''00000000001''] (lit ''nowhere'') (lit ''out'') start) of
        Inl e \<Rightarrow> False
      | Inr (matched, mismatched, tally) \<Rightarrow> \<not> set [lit ''00000000001''] \<subseteq> fst ` set tally)"
  using demo_missing demo_nowhere_missing by simp

text \<open>
  C6. A scan of an existing directory that returns has made the output directory,
  listed the source, and put every name of the listing in exactly one of three places:
  the matched list, the mismatched list, or the entries skipped because they are no
  regular file. So the three counts add up to the number of names listed. The matched
  names are those that carry an identifier of the target set, the mismatched names
  those that do not.
\<close>

theorem scan_classifies_every_entry:
  assumes "os_path_exists os (world s) images_dir"
    and "match_images_with_client_ids os client_ids images_dir output_folder s =
           (s', Inr (matched, mismatched, tally))"
  shows "\<exists>w names evs.
           path_mkdir os (world s) output_folder = Inr w
         \<and> os_listdir os w images_dir = Inr names
         \<and> events_since s s' = Made_dir output_folder # Listed images_dir names # evs
         \<and> length matched + length mismatched + length (skipped evs) = length names
         \<and> mset (map (os_path_join os images_dir) names) =
             mset (map (os_path_join os images_dir) matched)
               + mset (map (os_path_join os images_dir) mismatched) + mset (skipped evs)
         \<and> (\<forall>f\<in>set matched. names_client (unicode_decimal os) client_ids f)
         \<and> (\<forall>f\<in>set mismatched. \<not> names_client (unicode_decimal os) client_ids f)"
proof -
  from assms obtain w names where
    mk: "path_mkdir os (world s) output_folder = Inr w" and
    ls: "os_listdir os w images_dir = Inr names" and
    scan: "scan_directory os client_ids images_dir output_folder names ([], [], dict_zeros client_ids)
       (emit (Listed images_dir names) (emit (Made_dir output_folder) (s\<lparr>world := w\<rparr>)))
         = (s', Inr (matched, mismatched, tally))"
    by (rule match_images_existing)
  from scan_partition [OF scan] obtain evs where
    tr: "trace s' = trace (emit (Listed images_dir names)
                      (emit (Made_dir output_folder) (s\<lparr>world := w\<rparr>))) @ evs" and
    ms: "mset (map (os_path_join os images_dir) names) =
             mset (map (os_path_join os images_dir) matched)
               + mset (map (os_path_join os images_dir) mismatched) + mset (skipped evs)" and
    cl: "\<forall>f\<in>set matched. names_client (unicode_decimal os) client_ids f"
        "\<forall>f\<in>set mismatched. \<not> names_client (unicode_decimal os) client_ids f"
    by auto
  have ev: "events_since s s' = Made_dir output_folder # Listed images_dir names # evs"
    by (simp add: events_since_def tr)
  have "size (mset (map (os_path_join os images_dir) names)) =
          size (mset (map (os_path_join os images_dir) matched)
               + mset (map (os_path_join os images_dir) mismatched) + mset (skipped evs))"
    by (simp only: ms)
  then have len: "length matched + length mismatched + length (skipped evs) = length names"
    by simp
  from mk ls ev len ms cl show ?thesis by blast
qed

theorem scan_classifies_every_entry_witness:
  "os_path_exists demo_os (world start) (lit ''imgs'')
   \<and> snd (match_images_with_client_ids demo_os [lit ''00000000001'', lit ''00000000022''] (lit ''imgs'') (lit ''out'') start)
       = Inr ([lit ''1_a.jpg'', lit ''22_b.jpg''], [lit ''99_c.jpg''],
              [(lit ''00000000001'', 1), (lit ''00000000022'', 1)])
   \<and> (\<exists>evs. length [lit ''1_a.jpg'', lit ''22_b.jpg''] + length [lit ''99_c.jpg''] + length (skipped evs)
               = length [lit ''1_a.jpg'', lit ''22_b.jpg'', lit ''99_c.jpg'', lit ''old''])"
proof -
  from scan_classifies_every_entry [OF demo_imgs_exists run_of_snd [OF demo_primary]]
  obtain w names evs where
    "os_listdir demo_os w (lit ''imgs'') = Inr names"
    "length [lit ''1_a.jpg'', lit ''22_b.jpg''] + length [lit ''99_c.jpg''] + length (skipped evs) = length names"
    by blast
  moreover from this(1) have "names = [lit ''1_a.jpg'', lit ''22_b.jpg'', lit ''99_c.jpg'', lit ''old'']"
    by (simp add: demo_os_def)
  ultimately have "\<exists>evs. length [lit ''1_a.jpg'', lit ''22_b.jpg''] + length [lit ''99_c.jpg''] + length (skipped evs)
               = length [lit ''1_a.jpg'', lit ''22_b.jpg'', lit ''99_c.jpg'', lit ''old'']"
    by blast
  with demo_imgs_exists demo_primary show ?thesis by blast
qed

text \<open>
  C7. Whenever the matcher returns, the counts of the tally add up to the number of
  names in the matched list. The keys of the tally are distinct, so the sum over the
  values of the dict is the sum over its identifiers.
\<close>

theorem tally_sum_is_matched_count:
  assumes "match_images_with_client_ids os client_ids images_dir output_folder s =
             (s', Inr (matched, mismatched, tally))"
  shows "sum_list (map snd tally) = int (length matched)
       \<and> distinct (map fst tally)
       \<and> (\<Sum>k\<in>fst ` set tally. the (map_of tally k)) = int (length matched)"
proof -
  have a: "sum_list (map snd tally) = int (length matched) \<and> distinct (map fst tally)"
  proof (cases "os_path_exists os (world s) images_dir")
    case False
    with assms show ?thesis by (simp add: match_images_missing)
  next
    case True
    from True assms obtain w names where
      scan: "scan_directory os client_ids images_dir output_folder names ([], [], dict_zeros client_ids)
         (emit (Listed images_dir names) (emit (Made_dir output_folder) (s\<lparr>world := w\<rparr>)))
           = (s', Inr (matched, mismatched, tally))"
      by (rule match_images_existing)
    from scan_sum [OF scan] scan_distinct [OF scan] show ?thesis
      by (simp add: dict_zeros_sum dict_zeros_distinct)
  qed
  then have d: "distinct (map fst tally)" by simp
  have "(\<Sum>k\<in>fst ` set tally. the (map_of tally k)) = sum_list (map snd tally)"
    using d
  proof (induction tally)
    case Nil
    then show ?case by simp
  next
    case (Cons a t)
    obtain k v where a: "a = (k, v)" by (cases a)
    from Cons.prems a have k: "k \<notin> fst ` set t" and dt: "distinct (map fst t)" by auto
    have "(\<Sum>k'\<in>fst ` set t. the (map_of (a # t) k')) = (\<Sum>k'\<in>fst ` set t. the (map_of t k'))"
      using k a by (intro sum.cong) auto
    with Cons.IH [OF dt] k a show ?case by simp
  qed
  with a show ?thesis by simp
qed

theorem tally_sum_is_matched_count_witness:
  "snd (match_images_with_client_ids demo_os [lit ''00000000001'', lit ''00000000022''] (lit ''imgs'') (lit ''out'') start)
     = Inr ([lit ''1_a.jpg'', lit ''22_b.jpg''], [lit ''99_c.jpg''],
            [(lit ''00000000001'', 1), (lit ''00000000022'', 1)])
   \<and> sum_list (map snd [(lit ''00000000001'', 1::int), (lit ''00000000022'', 1)])
        = int (length [lit ''1_a.jpg'', lit ''22_b.jpg''])"
  using tally_sum_is_matched_count [OF run_of_snd [OF demo_primary]] demo_primary
  by blast

section \<open>The fallback pass\<close>

lemma find_None_keys:
  "find (\<lambda>cid. map_of d cid = None) ids = None \<longleftrightarrow> set ids \<subseteq> fst ` set d"
  by (auto simp: find_None_iff map_of_eq_None_iff)

lemma unmatched_client_ids_Inr:
  assumes "unmatched_client_ids ids d = Inr u"
  shows "set ids \<subseteq> fst ` set d"
    and "set u = {cid \<in> set ids. map_of d cid = Some 0}"
proof -
  from assms have f: "find (\<lambda>cid. map_of d cid = None) ids = None"
    and u: "u = py_set (filter (\<lambda>cid. map_of d cid = Some 0) ids)"
    by (auto simp: unmatched_client_ids_def split: option.splits)
  from f show "set ids \<subseteq> fst ` set d" by (simp only: find_None_keys)
  from u show "set u = {cid \<in> set ids. map_of d cid = Some 0}"
    by (auto simp: py_set_def)
qed

lemma dict_add_key:
  assumes "dict_add d k n = Inr d'"
  shows "k \<in> fst ` set d"
proof -
  from assms obtain v where "map_of d k = Some v"
    by (auto simp: dict_add_def split: option.splits)
  then show ?thesis
    by (metis map_of_eq_None_iff option.distinct(1))
qed

lemma merge_counts_ok:
  "fst ` set items \<subseteq> fst ` set d \<Longrightarrow> \<exists>d'. merge_counts d items = Inr d'"
proof (induction items arbitrary: d)
  case Nil
  then show ?case by simp
next
  case (Cons a items)
  obtain cid cnt where a: "a = (cid, cnt)" by (cases a)
  with Cons.prems have "cid \<in> fst ` set d" by auto
  then obtain d1 where d1: "dict_add d cid cnt = Inr d1"
    using dict_add_ok by blast
  have "fst ` set items \<subseteq> fst ` set d1"
    using Cons.prems keys_dict_add [OF d1] by auto
  from Cons.IH [OF this] show ?case by (simp add: a d1)
qed

lemma merge_counts_other:
  "merge_counts d items = Inr d' \<Longrightarrow> cid \<notin> fst ` set items \<Longrightarrow> map_of d' cid = map_of d cid"
proof (induction items arbitrary: d)
  case Nil
  then show ?case by simp
next
  case (Cons a items)
  obtain k cnt where a: "a = (k, cnt)" by (cases a)
  from Cons.prems(1) a obtain d1 where d1: "dict_add d k cnt = Inr d1"
    and rest: "merge_counts d1 items = Inr d'"
    by (auto split: sum.splits)
  from Cons.prems(2) a have "cid \<noteq> k" "cid \<notin> fst ` set items" by auto
  with Cons.IH [OF rest] map_of_dict_add [OF d1] show ?case by simp
qed

lemma merge_counts_keys:
  "merge_counts d items = Inr d' \<Longrightarrow> fst ` set d' = fst ` set d \<and> fst ` set items \<subseteq> fst ` set d"
proof (induction items arbitrary: d)
  case Nil
  then show ?case by simp
next
  case (Cons a items)
  obtain k cnt where a: "a = (k, cnt)" by (cases a)
  from Cons.prems(1) a obtain d1 where d1: "dict_add d k cnt = Inr d1"
    and rest: "merge_counts d1 items = Inr d'"
    by (auto split: sum.splits)
  from d1 have "k \<in> fst ` set d"
    by (rule dict_add_key)
  with Cons.IH [OF rest] keys_dict_add [OF d1] a show ?case by auto
qed

lemma matcher_keys_subset:
  assumes "match_images_with_client_ids os ids dir out s = (s', Inr (m, mm, t))"
  shows "fst ` set t \<subseteq> set ids"
proof (cases "os_path_exists os (world s) dir")
  case False
  with assms show ?thesis by (simp add: match_images_missing)
next
  case True
  from True assms obtain w names where
    scan: "scan_directory os ids dir out names ([], [], dict_zeros ids)
       (emit (Listed dir names) (emit (Made_dir out) (s\<lparr>world := w\<rparr>))) = (s', Inr (m, mm, t))"
    by (rule match_images_existing)
  show ?thesis using scan_keys [OF scan] by (simp add: dict_zeros_keys)
qed

lemma fallback_pass_cases:
  assumes "fallback_pass os u fb out d s = (s', Inr final)"
  obtains (none) "final = d"
  | (ran) dir s1 fm fmm ft where "fb = Some dir" "u \<noteq> []" "dir \<noteq> []"
      "match_images_with_client_ids os u dir out (emit (Ui Write_processing_fallback) s)
         = (s1, Inr (fm, fmm, ft))"
      "merge_counts d ft = Inr final"
  using assms
  by (auto simp: fallback_pass_def split: option.splits if_splits sum.splits prod.splits)

lemma demo_primary_77:
  "snd (match_images_with_client_ids demo_os [lit ''00000000001'', lit ''00000000077''] (lit ''imgs'') (lit ''out'') start)
     = Inr ([lit ''1_a.jpg''], [lit ''22_b.jpg'', lit ''99_c.jpg''],
            [(lit ''00000000001'', 1), (lit ''00000000077'', 0)])"
  by code_simp

lemma demo_unmatched_77:
  "unmatched_client_ids [lit ''00000000001'', lit ''00000000077'']
     [(lit ''00000000001'', 1), (lit ''00000000077'', 0)] = Inr [lit ''00000000077'']"
  by code_simp

lemma demo_fallback_77:
  "snd (fallback_pass demo_os [lit ''00000000077''] (Some (lit ''spare'')) (lit ''out'')
          [(lit ''00000000001'', 1), (lit ''00000000077'', 0)] start)
     = Inr [(lit ''00000000001'', 1), (lit ''00000000077'', 0)]"
  by code_simp

lemma demo_spare_77:
  "snd (match_images_with_client_ids demo_os [lit ''00000000077''] (lit ''spare'') (lit ''out'') start)
     = Inr ([], [lit ''1_x.jpg''], [(lit ''00000000077'', 0)])"
  by code_simp

text \<open>
  C8. The target set of the fallback pass is exactly the set of identifiers whose count
  after the primary pass is zero. The merge leaves the count of every identifier outside
  that set as it was; so an identifier with a count other than zero after the primary
  pass keeps that count.
\<close>

theorem fallback_keeps_matched_counts:
  assumes "unmatched_client_ids client_ids primary_count = Inr unmatched"
    and "fallback_pass os unmatched fallback_images_dir output_folder primary_count s
           = (s', Inr final_count)"
  shows "set unmatched = {cid \<in> set client_ids. map_of primary_count cid = Some 0}
       \<and> (\<forall>cid. cid \<notin> set unmatched \<longrightarrow> map_of final_count cid = map_of primary_count cid)
       \<and> (\<forall>cid n. map_of primary_count cid = Some n \<and> n \<noteq> 0 \<longrightarrow> map_of final_count cid = Some n)"
proof -
  have u: "set unmatched = {cid \<in> set client_ids. map_of primary_count cid = Some 0}"
    using assms(1) by (rule unmatched_client_ids_Inr(2))
  have keep: "map_of final_count cid = map_of primary_count cid" if "cid \<notin> set unmatched" for cid
    using assms(2)
  proof (cases rule: fallback_pass_cases)
    case none
    then show ?thesis by simp
  next
    case (ran dir s1 fm fmm ft)
    from matcher_keys_subset [OF ran(4)] that have "cid \<notin> fst ` set ft" by auto
    with ran(5) show ?thesis by (rule merge_counts_other)
  qed
  have "map_of final_count cid = Some n" if "map_of primary_count cid = Some n" "n \<noteq> 0" for cid n
  proof -
    from that u have "cid \<notin> set unmatched" by auto
    with keep that(1) show ?thesis by simp
  qed
  with u keep show ?thesis by blast
qed

theorem fallback_keeps_matched_counts_witness:
  "snd (match_images_with_client_ids demo_os [lit ''00000000001'', lit ''00000000077''] (lit ''imgs'') (lit ''out'') start)
     = Inr ([lit ''1_a.jpg''], [lit ''22_b.jpg'', lit ''99_c.jpg''],
            [(lit ''00000000001'', 1), (lit ''00000000077'', 0)])
   \<and> unmatched_client_ids [lit ''00000000001'', lit ''00000000077'']
        [(lit ''00000000001'', 1), (lit ''00000000077'', 0)] = Inr [lit ''00000000077'']
   \<and> snd (fallback_pass demo_os [lit ''00000000077''] (Some (lit ''spare'')) (lit ''out'')
          [(lit ''00000000001'', 1), (lit ''00000000077'', 0)] start)
        = Inr [(lit ''00000000001'', 1), (lit ''00000000077'', 0)]
   \<and> map_of [(lit ''00000000001'', 1::int), (lit ''00000000077'', 0)] (lit ''00000000001'') = Some 1"
proof -
  from fallback_keeps_matched_counts [OF demo_unmatched_77 run_of_snd [OF demo_fallback_77]]
  have "\<forall>cid n. map_of [(lit ''00000000001'', 1::int), (lit ''00000000077'', 0)] cid = Some n \<and> n \<noteq> 0 \<longrightarrow>
          map_of [(lit ''00000000001'', 1::int), (lit ''00000000077'', 0)] cid = Some n"
    by blast
  then have "map_of [(lit ''00000000001'', 1::int), (lit ''00000000077'', 0)] (lit ''00000000001'') = Some 1"
    by simp
  with demo_primary_77 demo_unmatched_77 demo_fallback_77 show ?thesis by blast
qed

text \<open>
  C10. Whenever the fallback pass has run on the unmatched identifiers and its tally is
  merged, every key of that tally is a key of the primary tally, so the additions of the
  merge find their key and the merge returns without a \<open>KeyError\<close>.
\<close>

theorem fallback_merge_finds_every_key:
  assumes "unmatched_client_ids client_ids primary_count = Inr unmatched"
    and "match_images_with_client_ids os unmatched fallback_dir output_folder s
           = (s', Inr (fallback_matched, fallback_mismatched, fallback_count))"
  shows "fst ` set fallback_count \<subseteq> fst ` set primary_count
       \<and> (\<exists>merged. merge_counts primary_count fallback_count = Inr merged)"
proof -
  have "fst ` set fallback_count \<subseteq> set unmatched"
    using assms(2) by (rule matcher_keys_subset)
  also have "\<dots> \<subseteq> set client_ids"
    using unmatched_client_ids_Inr(2) [OF assms(1)] by auto
  also have "\<dots> \<subseteq> fst ` set primary_count"
    using assms(1) by (rule unmatched_client_ids_Inr(1))
  finally have sub: "fst ` set fallback_count \<subseteq> fst ` set primary_count" .
  with merge_counts_ok [OF sub] show ?thesis by blast
qed

theorem fallback_merge_finds_every_key_witness:
  "unmatched_client_ids [lit ''00000000001'', lit ''00000000077'']
        [(lit ''00000000001'', 1), (lit ''00000000077'', 0)] = Inr [lit ''00000000077'']
   \<and> snd (match_images_with_client_ids demo_os [lit ''00000000077''] (lit ''spare'') (lit ''out'') start)
       = Inr ([], [lit ''1_x.jpg''], [(lit ''00000000077'', 0)])
   \<and> fst ` set [(lit ''00000000077'', 0::int)]
        \<subseteq> fst ` set [(lit ''00000000001'', 1::int), (lit ''00000000077'', 0)]
   \<and> (\<exists>merged. merge_counts [(lit ''00000000001'', 1), (lit ''00000000077'', 0)]
                  [(lit ''00000000077'', 0)] = Inr merged)"
  using fallback_merge_finds_every_key [OF demo_unmatched_77 run_of_snd [OF demo_spare_77]]
    demo_unmatched_77 demo_spare_77
  by blast

section \<open>The loader and the early return\<close>

lemma read_failure:
  assumes "pd_read_excel os (world s) excel_path = Inl e"
  shows "read_client_ids_from_excel os excel_path s =
           (emit (Ui (Error_reading_excel e)) s, ([], []))"
  using assms by (simp add: read_client_ids_from_excel_def)

lemma read_no_column:
  assumes "pd_read_excel os (world s) excel_path = Inr df" and "(lit ''ClientID'') \<notin> fst ` set df"
  shows "read_client_ids_from_excel os excel_path s =
           (emit (Ui (Error_reading_excel
              (ValueError (lit ''Excel file must contain a 'ClientID' column.'')))) s, ([], []))"
proof -
  from assms(2) have "map_of df (lit ''ClientID'') = None"
    by (simp only: map_of_eq_None_iff not_False_eq_True)
  with assms(1) show ?thesis by (simp add: read_client_ids_from_excel_def)
qed

lemma process_images_empty:
  assumes "read_client_ids_from_excel os excel_path s = (s1, ([], []))"
  shows "process_images os excel_path images_dir output_folder fallback s =
           (emit (Ui Error_no_valid_client_ids) s1, Inr None)"
  using assms by (simp add: process_images_def)

lemma events_since_emit2: "events_since s (emit b (emit a s)) = [a, b]"
  by (simp add: events_since_def)

text \<open>
  C9. When reading the table raises, or the table read has no column \<open>ClientID\<close>, the
  loader shows the error and returns the empty table and the empty set without raising.
  The run then shows that there are no identifiers and returns \<open>None\<close>: it raises
  nothing, does nothing to the file system and writes no table.
\<close>

theorem loader_failure_aborts:
  assumes "(\<exists>e. pd_read_excel os (world s) excel_path = Inl e)
         \<or> (\<exists>df. pd_read_excel os (world s) excel_path = Inr df \<and> (lit ''ClientID'') \<notin> fst ` set df)"
  shows "\<exists>err. read_client_ids_from_excel os excel_path s =
                 (emit (Ui (Error_reading_excel err)) s, ([], []))
             \<and> process_images os excel_path images_dir output_folder fallback s =
                 (emit (Ui Error_no_valid_client_ids) (emit (Ui (Error_reading_excel err)) s),
                  Inr None)
             \<and> events_since s (fst (process_images os excel_path images_dir output_folder fallback s))
                 = [Ui (Error_reading_excel err), Ui Error_no_valid_client_ids]
             \<and> tables_written
                 (events_since s (fst (process_images os excel_path images_dir output_folder fallback s)))
                 = []
             \<and> world (fst (process_images os excel_path images_dir output_folder fallback s)) = world s"
proof -
  from assms obtain err where
    r: "read_client_ids_from_excel os excel_path s = (emit (Ui (Error_reading_excel err)) s, ([], []))"
    using read_failure read_no_column by blast
  have p: "process_images os excel_path images_dir output_folder fallback s =
             (emit (Ui Error_no_valid_client_ids) (emit (Ui (Error_reading_excel err)) s), Inr None)"
    using r by (rule process_images_empty)
  show ?thesis
    by (intro exI [of _ err]) (simp add: r p events_since_emit2)
qed

lemma demo_gone: "pd_read_excel demo_os (world start) (lit ''gone.xlsx'') = Inl (LibraryError (lit ''FileNotFoundError''))"
  by (simp add: demo_os_def)

lemma demo_names:
  "pd_read_excel demo_os (world start) (lit ''names.xlsx'') = Inr [(lit ''Name'', [Text (lit ''A''), Text (lit ''B'')])]
   \<and> (lit ''ClientID'') \<notin> fst ` set [(lit ''Name'', [Text (lit ''A''), Text (lit ''B'')])]"
  by (simp add: demo_os_def)

theorem loader_failure_aborts_witness:
  "pd_read_excel demo_os (world start) (lit ''gone.xlsx'') = Inl (LibraryError (lit ''FileNotFoundError''))
   \<and> pd_read_excel demo_os (world start) (lit ''names.xlsx'') = Inr [(lit ''Name'', [Text (lit ''A''), Text (lit ''B'')])]
   \<and> (lit ''ClientID'') \<notin> fst ` set [(lit ''Name'', [Text (lit ''A''), Text (lit ''B'')])]
   \<and> snd (process_images demo_os (lit ''gone.xlsx'') (lit ''imgs'') (lit ''out'') None start) = Inr None
   \<and> snd (process_images demo_os (lit ''names.xlsx'') (lit ''imgs'') (lit ''out'') None start) = Inr None
   \<and> tables_written (events_since start
        (fst (process_images demo_os (lit ''gone.xlsx'') (lit ''imgs'') (lit ''out'') None start))) = []
   \<and> tables_written (events_since start
        (fst (process_images demo_os (lit ''names.xlsx'') (lit ''imgs'') (lit ''out'') None start))) = []"
proof -
  have a: "(\<exists>e. pd_read_excel demo_os (world start) (lit ''gone.xlsx'') = Inl e)
         \<or> (\<exists>df. pd_read_excel demo_os (world start) (lit ''gone.xlsx'') = Inr df \<and> (lit ''ClientID'') \<notin> fst ` set df)"
    using demo_gone by blast
  have b: "(\<exists>e. pd_read_excel demo_os (world start) (lit ''names.xlsx'') = Inl e)
         \<or> (\<exists>df. pd_read_excel demo_os (world start) (lit ''names.xlsx'') = Inr df \<and> (lit ''ClientID'') \<notin> fst ` set df)"
    using demo_names by blast
  from loader_failure_aborts [OF a, of "lit ''imgs''" "lit ''out''" None]
  have 1: "snd (process_images demo_os (lit ''gone.xlsx'') (lit ''imgs'') (lit ''out'') None start) = Inr None
     \<and> tables_written (events_since start
        (fst (process_images demo_os (lit ''gone.xlsx'') (lit ''imgs'') (lit ''out'') None start))) = []"
    by auto
  from loader_failure_aborts [OF b, of "lit ''imgs''" "lit ''out''" None]
  have 2: "snd (process_images demo_os (lit ''names.xlsx'') (lit ''imgs'') (lit ''out'') None start) = Inr None
     \<and> tables_written (events_since start
        (fst (process_images demo_os (lit ''names.xlsx'') (lit ''imgs'') (lit ''out'') None start))) = []"
    by auto
  from 1 2 demo_gone demo_names show ?thesis by blast
qed

section \<open>The derived path\<close>


lemma str_replace_Nil: "old \<noteq> [] \<Longrightarrow> str_replace old new [] = []"
  by (subst str_replace.simps) auto


lemma str_replace_miss:
  "old \<noteq> [] \<Longrightarrow> take (length old) (c # cs) \<noteq> old \<Longrightarrow>
     str_replace old new (c # cs) = c # str_replace old new cs"
  by (subst str_replace.simps) simp

lemma str_replace_absent:
  "old \<noteq> [] \<Longrightarrow> \<not> substr_in old s \<Longrightarrow> str_replace old new s = s"
  by (induction s) (auto simp: str_replace_Nil str_replace_miss)








section \<open>A missing primary directory\<close>

lemma process_images_missing_primary:
  assumes "read_client_ids_from_excel os excel_path s = (s1, (excel_df, cid # cids))"
    and "\<not> df_empty excel_df"
    and "\<not> os_path_exists os (world s1) images_dir"
  shows "process_images os excel_path images_dir output_folder fallback s =
           (emit (Ui (Error_directory_missing images_dir)) s1, Inl (KeyError cid))"
  using assms
  by (simp add: process_images_def match_images_missing unmatched_client_ids_def)

text \<open>
  C1. The claim is that a missing primary directory is shown to the user and ends the
  run without an exception and without an output table. The code shows the condition and
  writes no table, but an exception does leave \<open>process_images\<close>: the matcher
  returns the empty dict, and line 109 looks up the first identifier in it. On a table
  with the one identifier \<open>1\<close> and a primary directory that does not exist, the run
  ends in \<open>KeyError\<close>.
\<close>

theorem missing_primary_directory_raises:
  "snd (process_images demo_os (lit ''one.xlsx'') (lit ''nowhere'') (lit ''out'') None start)
     = Inl (KeyError (lit ''00000000001''))
   \<and> trace (fst (process_images demo_os (lit ''one.xlsx'') (lit ''nowhere'') (lit ''out'') None start))
     = [Ui (Error_directory_missing (lit ''nowhere''))]
   \<and> \<not> os_path_exists demo_os (world start) (lit ''nowhere'')"
  by code_simp

end
